theory Spec2Isabelle
  imports Main
begin

section \<open>Strings, tokens and integers as Python has them\<close>

text \<open>
  A Python \<open>str\<close> is a sequence of code points. A line is modelled as a \<^typ>\<open>string\<close> whose
  characters are the code points below 256. In that range the characters that
  \<open>str.split()\<close>, \<open>str.strip()\<close> and \<open>int()\<close> treat as whitespace are U+0009..U+000D,
  U+001C..U+0020, U+0085 and U+00A0, and the only decimal digits are \<open>0\<close>..\<open>9\<close>.
\<close>

definition whitespace :: "char list" where
  "whitespace = [CHR 0x09, CHR 0x0A, CHR 0x0B, CHR 0x0C, CHR 0x0D,
                 CHR 0x1C, CHR 0x1D, CHR 0x1E, CHR 0x1F, CHR 0x20,
                 CHR 0x85, CHR 0xA0]"

definition is_space :: "char \<Rightarrow> bool" where
  "is_space c = (c \<in> set whitespace)"

text \<open>\<open>line.strip()\<close>: leading and trailing whitespace removed.\<close>

definition strip :: "string \<Rightarrow> string" where
  "strip s = rev (dropWhile is_space (rev (dropWhile is_space s)))"

text \<open>
  \<open>transaction.split()\<close>: the maximal runs of non-whitespace characters, in order.
  \<open>cur\<close> is the token being read.
\<close>

fun split_from :: "string \<Rightarrow> string \<Rightarrow> string list" where
  "split_from cur [] = (if cur = [] then [] else [cur])"
| "split_from cur (c # cs) =
     (if is_space c then (if cur = [] then split_from [] cs else cur # split_from [] cs)
      else split_from (cur @ [c]) cs)"

definition split :: "string \<Rightarrow> string list" where
  "split s = split_from [] s"

text \<open>\<open>transaction.startswith(p)\<close>.\<close>

definition startswith :: "string \<Rightarrow> string \<Rightarrow> bool" where
  "startswith s p = (take (length p) s = p)"

text \<open>
  \<open>int(tok)\<close> in base 10: surrounding whitespace is dropped, then an optional sign, then
  digits in which single underscores may stand between two digits. Anything else raises
  ValueError, here \<open>None\<close>. (The interpreter's optional limit on the number of digits of a
  literal is not modelled: literals of any length are read.)
\<close>

definition is_digit :: "char \<Rightarrow> bool" where
  "is_digit c = (c \<in> set ''0123456789'')"

definition digit_val :: "char \<Rightarrow> nat" where
  "digit_val c = length (takeWhile (\<lambda>d. d \<noteq> c) ''0123456789'')"

fun digits_from :: "bool \<Rightarrow> nat \<Rightarrow> string \<Rightarrow> nat option" where
  "digits_from us acc [] = (if us then None else Some acc)"
| "digits_from us acc (c # cs) =
     (if is_digit c then digits_from False (10 * acc + digit_val c) cs
      else if c = CHR ''_'' \<and> \<not> us then digits_from True acc cs
      else None)"

definition parse_nat :: "string \<Rightarrow> nat option" where
  "parse_nat s =
     (case s of
        [] \<Rightarrow> None
      | c # cs \<Rightarrow> if is_digit c then digits_from False (digit_val c) cs else None)"

definition parse_signed :: "string \<Rightarrow> int option" where
  "parse_signed s =
     (case s of
        [] \<Rightarrow> None
      | c # cs \<Rightarrow>
          if c = CHR ''-'' then map_option (\<lambda>n. - int n) (parse_nat cs)
          else if c = CHR ''+'' then map_option int (parse_nat cs)
          else map_option int (parse_nat s))"

definition py_int :: "string \<Rightarrow> int option" where
  "py_int s = parse_signed (strip s)"

text \<open>\<open>str(n)\<close> for an integer: decimal digits, with a leading minus when negative.\<close>

definition digit_char :: "nat \<Rightarrow> char" where
  "digit_char d = ''0123456789'' ! d"

fun str_nat :: "nat \<Rightarrow> string" where
  "str_nat n = (if n < 10 then [digit_char n] else str_nat (n div 10) @ [digit_char (n mod 10)])"

declare str_nat.simps [simp del]

definition py_str :: "int \<Rightarrow> string" where
  "py_str i = (if i < 0 then CHR ''-'' # str_nat (nat (- i)) else str_nat (nat i))"

section \<open>The processor state\<close>

text \<open>
  The fields of the dataclass \<open>CasinoSystem\<close>. A scenario is the list of its three prize
  tokens as they were read; a user's campaign is such a list with the tier marker appended.
\<close>

record casino_system =
  input_file :: string
  output_file :: string
  balances :: "string \<rightharpoonup> int"
  outputs :: "string list"
  win :: bool
  unused_scenarios :: "string list list"
  deposits :: "string \<rightharpoonup> int"
  slot_bets :: "string \<rightharpoonup> int"
  user_campaigns :: "string \<rightharpoonup> string list"

definition initial :: casino_system where
  "initial = \<lparr> input_file = ''/data/transactions.txt'', output_file = ''/data/results.txt'',
               balances = Map.empty, outputs = [], win = True, unused_scenarios = [],
               deposits = Map.empty, slot_bets = Map.empty, user_campaigns = Map.empty \<rparr>"

definition SLOT :: string where "SLOT = ''SLOT''"
definition CASINO :: string where "CASINO = ''CASINO''"
definition SPORT :: string where "SPORT = ''SPORT''"

text \<open>
  Every place where the source raises is a constructor. The first six are the ValueErrors
  of the command handlers (\<open>InvalidLiteral\<close> is \<open>int(amount)\<close> failing). The last four arise
  inside \<open>check_campaign_status\<close>: \<open>popleft\<close> on an empty deque, \<open>self.balances[user_id]\<close>
  on a missing key, a list index out of range, and \<open>int(prize)\<close> failing.
\<close>

datatype error =
    InvalidParameterCount
  | InvalidLiteral
  | NotPositive
  | UserExists
  | NotRegistered
  | InvalidGameType
  | PopFromEmptyDeque
  | BalanceKeyError
  | ListIndexError
  | InvalidPrizeLiteral
  | FileNotFound

text \<open>
  The handlers mutate the object in place, so an exception leaves behind whatever was
  written before it was raised. A failing call therefore returns the error together with
  the state at the moment of the raise.
\<close>

type_synonym result = "(error \<times> casino_system) + casino_system"

definition state_of :: "result \<Rightarrow> casino_system" where
  "state_of r = (case r of Inl (e, s) \<Rightarrow> s | Inr s \<Rightarrow> s)"

section \<open>The campaign evaluator\<close>

text \<open>
  \<open>self.balances[user_id] += int(campaign[i])\<close>: the balance is read first (KeyError), then
  the list element (IndexError), then parsed (ValueError), then the sum is stored.
\<close>

definition pay_prize :: "string \<Rightarrow> string list \<Rightarrow> nat \<Rightarrow> casino_system \<Rightarrow> result" where
  "pay_prize user_id campaign i s =
     (case balances s user_id of
        None \<Rightarrow> Inl (BalanceKeyError, s)
      | Some b \<Rightarrow>
          if length campaign \<le> i then Inl (ListIndexError, s)
          else (case py_int (campaign ! i) of
                  None \<Rightarrow> Inl (InvalidPrizeLiteral, s)
                | Some prize \<Rightarrow> Inr (s\<lparr>balances := (balances s)(user_id \<mapsto> b + prize)\<rparr>)))"

text \<open>
  The two statements after a tier payout, \<open>campaign[:-1].append(m)\<close> and
  \<open>self.user_campaigns[user_id] = campaign\<close>. The slice is a new list: the marker is
  appended to that copy, which is then dropped, and the list stored is \<open>campaign\<close> itself.
\<close>

definition store_campaign :: "string \<Rightarrow> string list \<Rightarrow> string \<Rightarrow> casino_system \<Rightarrow> casino_system" where
  "store_campaign user_id campaign m s =
     (let sliced = butlast campaign @ [m]
      in s\<lparr>user_campaigns := (user_campaigns s)(user_id \<mapsto> campaign)\<rparr>)"

definition tier_payout :: "string \<Rightarrow> string list \<Rightarrow> nat \<Rightarrow> string \<Rightarrow> casino_system \<Rightarrow> result" where
  "tier_payout user_id campaign i m s =
     (case pay_prize user_id campaign i s of
        Inl e \<Rightarrow> Inl e
      | Inr s' \<Rightarrow> Inr (store_campaign user_id campaign m s'))"

text \<open>
  The \<open>elif\<close> branch of the evaluator. \<open>campaign[-1]\<close> is only read when both thresholds hold
  (\<open>and\<close> is short-circuit) and raises IndexError on an empty list.
\<close>

definition tier2_branch :: "string \<Rightarrow> string list \<Rightarrow> int \<Rightarrow> int \<Rightarrow> casino_system \<Rightarrow> result" where
  "tier2_branch user_id campaign d w s =
     (if d \<ge> 500 \<and> w \<ge> 250 then
        (if campaign = [] then Inl (ListIndexError, s)
         else if last campaign = ''1'' then tier_payout user_id campaign 1 ''2'' s
         else Inr s)
      else Inr s)"

definition check_campaign_status :: "string \<Rightarrow> casino_system \<Rightarrow> result" where
  "check_campaign_status user_id s =
     (case (deposits s user_id, slot_bets s user_id) of
        (Some d, Some w) \<Rightarrow>
          (case user_campaigns s user_id of
             None \<Rightarrow>
               if d \<ge> 100 \<and> w \<ge> 50 then
                 (case unused_scenarios s of
                    [] \<Rightarrow> Inl (PopFromEmptyDeque, s)
                  | sc # rest \<Rightarrow>
                      let available_campaign = sc @ [''1''] in
                      pay_prize user_id available_campaign 0
                        (s\<lparr>unused_scenarios := rest,
                           user_campaigns := (user_campaigns s)(user_id \<mapsto> available_campaign)\<rparr>))
               else Inr s
           | Some campaign \<Rightarrow>
               if d \<ge> 1000 \<and> w \<ge> 500 then
                 (if campaign = [] then Inl (ListIndexError, s)
                  else if last campaign = ''2'' then tier_payout user_id campaign 2 ''3'' s
                  else tier2_branch user_id campaign d w s)
               else tier2_branch user_id campaign d w s)
      | _ \<Rightarrow> Inr s)"

section \<open>The command handlers\<close>

definition make_registration :: "string \<Rightarrow> casino_system \<Rightarrow> result" where
  "make_registration transaction s =
     (let parts = split transaction in
      if length parts \<noteq> 2 then Inl (InvalidParameterCount, s)
      else let user_id = parts ! 1 in
        if balances s user_id \<noteq> None then Inl (UserExists, s)
        else Inr (s\<lparr>balances := (balances s)(user_id \<mapsto> 0)\<rparr>))"

definition add_scenario :: "string \<Rightarrow> casino_system \<Rightarrow> result" where
  "add_scenario transaction s =
     (let parts = split transaction in
      if length parts \<noteq> 4 then Inl (InvalidParameterCount, s)
      else Inr (s\<lparr>unused_scenarios := unused_scenarios s @ [[parts ! 1, parts ! 2, parts ! 3]]\<rparr>))"

definition get_or_zero :: "(string \<rightharpoonup> int) \<Rightarrow> string \<Rightarrow> int" where
  "get_or_zero m k = (case m k of None \<Rightarrow> 0 | Some v \<Rightarrow> v)"

definition make_deposit :: "string \<Rightarrow> casino_system \<Rightarrow> result" where
  "make_deposit transaction s =
     (let parts = split transaction in
      if length parts \<noteq> 3 then Inl (InvalidParameterCount, s)
      else let user_id = parts ! 1 in
        (case py_int (parts ! 2) of
           None \<Rightarrow> Inl (InvalidLiteral, s)
         | Some amount \<Rightarrow>
             if amount \<le> 0 then Inl (NotPositive, s)
             else (case balances s user_id of
                     None \<Rightarrow> Inl (NotRegistered, s)
                   | Some b \<Rightarrow>
                       check_campaign_status user_id
                         (s\<lparr>balances := (balances s)(user_id \<mapsto> b + amount),
                            deposits := (deposits s)(user_id \<mapsto> get_or_zero (deposits s) user_id + amount)\<rparr>))))"

definition resolve_bet :: "string \<Rightarrow> int \<Rightarrow> int \<Rightarrow> casino_system \<Rightarrow> casino_system" where
  "resolve_bet user_id b amount s =
     (if amount \<le> b then
        s\<lparr>balances := (balances s)(user_id \<mapsto> b + (if win s then amount else - amount)),
          win := \<not> win s\<rparr>
      else s)"

definition make_bet :: "string \<Rightarrow> casino_system \<Rightarrow> result" where
  "make_bet transaction s =
     (let parts = split transaction in
      if length parts \<noteq> 4 then Inl (InvalidParameterCount, s)
      else let user_id = parts ! 1; game = parts ! 2 in
        (case py_int (parts ! 3) of
           None \<Rightarrow> Inl (InvalidLiteral, s)
         | Some amount \<Rightarrow>
             if amount \<le> 0 then Inl (NotPositive, s)
             else (case balances s user_id of
                     None \<Rightarrow> Inl (NotRegistered, s)
                   | Some b \<Rightarrow>
                       if game \<notin> {SLOT, CASINO, SPORT} then Inl (InvalidGameType, s)
                       else let s1 = resolve_bet user_id b amount s in
                         if game = SLOT then
                           check_campaign_status user_id
                             (s1\<lparr>slot_bets := (slot_bets s1)(user_id \<mapsto> get_or_zero (slot_bets s1) user_id + amount)\<rparr>)
                         else Inr s1)))"

definition get_balance :: "string \<Rightarrow> casino_system \<Rightarrow> result" where
  "get_balance transaction s =
     (let parts = split transaction in
      if length parts \<noteq> 2 then Inl (InvalidParameterCount, s)
      else let user_id = parts ! 1 in
        (case balances s user_id of
           None \<Rightarrow> Inl (NotRegistered, s)
         | Some b \<Rightarrow> Inr (s\<lparr>outputs := outputs s @ [py_str b]\<rparr>)))"

section \<open>Dispatch and the run\<close>

text \<open>The body of the loop of \<open>make_transactions\<close> for one stripped line.\<close>

definition process_line :: "casino_system \<Rightarrow> string \<Rightarrow> result" where
  "process_line s transaction =
     (if startswith transaction ''register'' then make_registration transaction s
      else if startswith transaction ''addscenario'' then add_scenario transaction s
      else if startswith transaction ''deposit'' then make_deposit transaction s
      else if startswith transaction ''bet'' then make_bet transaction s
      else if startswith transaction ''balance'' then get_balance transaction s
      else Inr s)"

text \<open>The loop: lines in order, stopping at the first exception.\<close>

fun process_lines :: "casino_system \<Rightarrow> string list \<Rightarrow> result" where
  "process_lines s [] = Inr s"
| "process_lines s (t # ts) =
     (case process_line s t of
        Inl e \<Rightarrow> Inl e
      | Inr s' \<Rightarrow> process_lines s' ts)"

text \<open>
  \<open>get_file_content\<close> yields each line of the input file stripped; a missing file raises
  before any line is processed. The file is a parameter: \<open>None\<close> when it does not exist,
  else its lines.
\<close>

definition get_file_content :: "string list option \<Rightarrow> error + string list" where
  "get_file_content file = (case file of None \<Rightarrow> Inl FileNotFound | Some ls \<Rightarrow> Inr (map strip ls))"

definition make_transactions :: "casino_system \<Rightarrow> string list option \<Rightarrow> result" where
  "make_transactions s file =
     (case get_file_content file of
        Inl e \<Rightarrow> Inl (e, s)
      | Inr transactions \<Rightarrow> process_lines s transactions)"

text \<open>\<open>save_outputs\<close> writes one line per recorded output; these are the lines written.\<close>

definition save_outputs :: "casino_system \<Rightarrow> string list" where
  "save_outputs s = map (\<lambda>line. line @ [CHR 0x0A]) (outputs s)"

section \<open>Notions used in the statements\<close>

text \<open>The state after the first \<open>k\<close> lines of a run (the state at the raise, if it has stopped).\<close>

definition state_after :: "casino_system \<Rightarrow> string list \<Rightarrow> nat \<Rightarrow> casino_system" where
  "state_after s ts k = state_of (process_lines s (take k ts))"

text \<open>
  What happened to the scenario queue and the campaigns between an earlier state \<open>a\<close> and a
  later state \<open>b\<close>: \<open>us\<close> lists, each once, exactly the users who have a campaign in \<open>b\<close>
  and had none in \<open>a\<close>; the \<open>k\<close>-th of them holds the \<open>k\<close>-th scenario of \<open>taken\<close> with
  the marker 1 appended; \<open>taken\<close> followed by the queue of \<open>b\<close> is the queue of \<open>a\<close>
  followed by the scenarios \<open>added\<close> at its back since; and every campaign of \<open>a\<close> is
  still the same in \<open>b\<close>.
\<close>

definition assigned_between ::
  "casino_system \<Rightarrow> casino_system \<Rightarrow> string list \<Rightarrow> string list list \<Rightarrow> string list list \<Rightarrow> bool" where
  "assigned_between a b us taken added =
     (distinct us
      \<and> set us = {u. user_campaigns a u = None \<and> user_campaigns b u \<noteq> None}
      \<and> map (user_campaigns b) us = map (\<lambda>sc. Some (sc @ [''1''])) taken
      \<and> unused_scenarios a @ added = taken @ unused_scenarios b
      \<and> (\<forall>u c. user_campaigns a u = Some c \<longrightarrow> user_campaigns b u = Some c))"

text \<open>The queue and the campaigns of a state, and what one line may do to them.\<close>

definition qc :: "casino_system \<Rightarrow> string list list \<times> (string \<rightharpoonup> string list)" where
  "qc s = (unused_scenarios s, user_campaigns s)"

definition qc_step :: "casino_system \<Rightarrow> casino_system \<Rightarrow> bool" where
  "qc_step s s' =
     (qc s' = qc s
      \<or> (\<exists>sc. qc s' = (unused_scenarios s @ [sc], user_campaigns s))
      \<or> (\<exists>u sc rest. unused_scenarios s = sc # rest \<and> user_campaigns s u = None
            \<and> qc s' = (rest, (user_campaigns s)(u \<mapsto> sc @ [''1'']))))"

text \<open>Every campaign ends in the marker 1.\<close>

definition marker_one :: "casino_system \<Rightarrow> bool" where
  "marker_one s = (\<forall>u c. user_campaigns s u = Some c \<longrightarrow> c \<noteq> [] \<and> last c = ''1'')"

text \<open>
  A prize token that \<open>int\<close> reads as a non-negative integer; a line that, if it loads a
  scenario, loads such prizes only; states whose balances are non-negative and whose
  queued and assigned prize tokens are all of that kind.
\<close>

definition nonneg_prize :: "string \<Rightarrow> bool" where
  "nonneg_prize p = (case py_int p of None \<Rightarrow> False | Some n \<Rightarrow> 0 \<le> n)"

definition scenario_line_ok :: "string \<Rightarrow> bool" where
  "scenario_line_ok t =
     (startswith t ''addscenario'' \<and> length (split t) = 4
      \<longrightarrow> list_all nonneg_prize (tl (split t)))"

definition balances_ok :: "casino_system \<Rightarrow> bool" where
  "balances_ok s = (\<forall>u b. balances s u = Some b \<longrightarrow> 0 \<le> b)"

definition prizes_ok :: "casino_system \<Rightarrow> bool" where
  "prizes_ok s =
     ((\<forall>sc\<in>set (unused_scenarios s). list_all nonneg_prize sc)
      \<and> (\<forall>u c. user_campaigns s u = Some c \<longrightarrow> list_all nonneg_prize c))"

definition sound :: "casino_system \<Rightarrow> bool" where
  "sound s = (balances_ok s \<and> prizes_ok s)"

section \<open>Concrete runs and states\<close>

text \<open>The example run of the specification.\<close>

definition example_run :: "string list" where
  "example_run = [''register u1'', ''addscenario 10 20 30'', ''deposit u1 100'',
                  ''bet u1 SLOT 50'', ''balance u1'']"

text \<open>
  A user who has reached the first thresholds while no scenario is loaded: the state in
  which the evaluator is entered by \<open>bet u1 SLOT 50\<close> after \<open>register u1\<close> and
  \<open>deposit u1 100\<close>.
\<close>

definition eligible_state :: casino_system where
  "eligible_state = initial\<lparr>balances := [''u1'' \<mapsto> 150], win := False,
                            deposits := [''u1'' \<mapsto> 100], slot_bets := [''u1'' \<mapsto> 50]\<rparr>"

text \<open>One registered user holding 100.\<close>

definition funded_state :: casino_system where
  "funded_state = initial\<lparr>balances := [''u1'' \<mapsto> 100], deposits := [''u1'' \<mapsto> 100]\<rparr>"

text \<open>The errors the command handlers raise themselves, before calling the evaluator.\<close>

definition handler_errors :: "error set" where
  "handler_errors = {InvalidParameterCount, InvalidLiteral, NotPositive, UserExists,
                     NotRegistered, InvalidGameType}"

text \<open>
  A run that takes a user to the second thresholds and then deposits twice more, the state
  after its first four lines, and a state whose campaign carries the marker 2 with the
  third thresholds met.
\<close>

definition tier_run :: "string list" where
  "tier_run = [''register u1'', ''addscenario 10 20 30'', ''deposit u1 500'',
               ''bet u1 SLOT 250'', ''balance u1'',
               ''deposit u1 1'', ''balance u1'',
               ''deposit u1 1'', ''balance u1'']"

definition tier1_state :: casino_system where
  "tier1_state = initial\<lparr>balances := [''u1'' \<mapsto> 760], win := False,
                          deposits := [''u1'' \<mapsto> 500], slot_bets := [''u1'' \<mapsto> 250],
                          user_campaigns := [''u1'' \<mapsto> [''10'', ''20'', ''30'', ''1'']]\<rparr>"

definition tier2_state :: casino_system where
  "tier2_state = initial\<lparr>balances := [''u1'' \<mapsto> 0],
                          deposits := [''u1'' \<mapsto> 1000], slot_bets := [''u1'' \<mapsto> 500],
                          user_campaigns := [''u1'' \<mapsto> [''10'', ''20'', ''30'', ''2'']]\<rparr>"

text \<open>Two users who reach the first thresholds one after the other, two scenarios loaded.\<close>

definition two_user_run :: "string list" where
  "two_user_run = [''register a'', ''register b'', ''addscenario 1 2 3'', ''addscenario 4 5 6'',
                   ''deposit b 100'', ''bet b SLOT 50'', ''deposit a 100'', ''bet a SLOT 50'']"

text \<open>A run with a scenario in which a won bet is followed by a lost bet of the whole balance.\<close>

definition loss_run :: "string list" where
  "loss_run = [''register u1'', ''addscenario 10 20 30'', ''deposit u1 50'',
               ''bet u1 CASINO 50'', ''bet u1 SPORT 100'']"

text \<open>The five command words the dispatch tests for.\<close>

definition command_keywords :: "string list" where
  "command_keywords = [''register'', ''addscenario'', ''deposit'', ''bet'', ''balance'']"

section \<open>Dispatch by prefix\<close>

lemma startswith_Cons: "startswith t (c # p) \<Longrightarrow> \<exists>r. t = c # r"
  by (cases t) (auto simp add: startswith_def)

lemma process_line_bet: "startswith t ''bet'' \<Longrightarrow> process_line s t = make_bet t s"
  by (auto simp add: process_line_def dest!: startswith_Cons)

text \<open>Unfolding sets for evaluating tokens and integer literals on concrete lines.\<close>

lemmas tok_defs = split_def is_space_def whitespace_def Let_def
lemmas int_defs = py_int_def strip_def is_space_def whitespace_def parse_signed_def
                  parse_nat_def is_digit_def digit_val_def

lemmas eval_defs = check_campaign_status_def tier2_branch_def tier_payout_def pay_prize_def
                   store_campaign_def

section \<open>The example run\<close>

text \<open>
  C4. The run \<open>register u1; addscenario 10 20 30; deposit u1 100; bet u1 SLOT 50;
  balance u1\<close> from the initial state succeeds and records exactly \<open>160\<close>. After the
  deposit the balance is 100 and the flag is still win; after the bet the balance is 160
  (150 from the won bet plus prize1 = 10), the flag is loss, the scenario has left the queue
  and is the user's campaign with marker 1.
\<close>

theorem example_run_records_160:
  "map_sum fst outputs (make_transactions initial (Some example_run)) = Inr [''160'']
   \<and> map_sum fst (\<lambda>s. (balances s ''u1'', win s))
        (process_lines initial (take 3 example_run)) = Inr (Some 100, True)
   \<and> map_sum fst (\<lambda>s. (balances s ''u1'', win s, user_campaigns s ''u1'', unused_scenarios s))
        (process_lines initial (take 4 example_run))
      = Inr (Some 160, False, Some [''10'', ''20'', ''30'', ''1''], [])"
proof (intro conjI)
  show "map_sum fst outputs (make_transactions initial (Some example_run)) = Inr [''160'']"
    by code_simp
  show "map_sum fst (\<lambda>s. (balances s ''u1'', win s))
        (process_lines initial (take 3 example_run)) = Inr (Some 100, True)"
    by code_simp
  show "map_sum fst (\<lambda>s. (balances s ''u1'', win s, user_campaigns s ''u1'', unused_scenarios s))
        (process_lines initial (take 4 example_run))
      = Inr (Some 160, False, Some [''10'', ''20'', ''30'', ''1''], [])"
    by code_simp
qed

section \<open>The empty scenario queue\<close>

text \<open>
  C5. When the evaluator is entered for a user without a campaign whose deposits are at
  least 100 and whose SLOT wagers are at least 50 while the scenario queue is empty, it
  raises (the \<open>popleft\<close> on the empty deque) and has changed nothing at that point; it does
  not return normally.
\<close>

theorem evaluator_fails_on_empty_queue:
  assumes "user_campaigns s u = None"
    and "deposits s u = Some d" and "100 \<le> d"
    and "slot_bets s u = Some w" and "50 \<le> w"
    and "unused_scenarios s = []"
  shows "check_campaign_status u s = Inl (PopFromEmptyDeque, s)"
  using assms by (simp add: check_campaign_status_def)

theorem evaluator_fails_on_empty_queue_witness:
  "user_campaigns eligible_state ''u1'' = None
   \<and> deposits eligible_state ''u1'' = Some 100
   \<and> slot_bets eligible_state ''u1'' = Some 50
   \<and> unused_scenarios eligible_state = []
   \<and> check_campaign_status ''u1'' eligible_state = Inl (PopFromEmptyDeque, eligible_state)"
proof -
  have a: "user_campaigns eligible_state ''u1'' = None"
    by (simp add: eligible_state_def initial_def)
  have b: "deposits eligible_state ''u1'' = Some 100"
    by (simp add: eligible_state_def)
  have c: "slot_bets eligible_state ''u1'' = Some 50"
    by (simp add: eligible_state_def)
  have d: "unused_scenarios eligible_state = []"
    by (simp add: eligible_state_def initial_def)
  from evaluator_fails_on_empty_queue [OF a b _ c _ d] a b c d show ?thesis
    by simp
qed

text \<open>The same failure reached through the handlers: the run stops at the bet.\<close>

lemma run_aborts_on_empty_queue:
  "map_sum fst outputs
     (process_lines initial [''register u1'', ''deposit u1 100'', ''bet u1 SLOT 50'', ''balance u1''])
   = Inl PopFromEmptyDeque"
  by code_simp

section \<open>Bets that cannot be covered\<close>

text \<open>
  C7. A well-formed bet of a registered user on CASINO or SPORT whose positive amount
  exceeds the user's balance succeeds and returns the state it was given, every field
  unchanged; so does the dispatch of such a line.
\<close>

theorem uncoverable_non_slot_bet_changes_nothing:
  assumes "split t = [k, u, g, a]"
    and "py_int a = Some n" and "0 < n"
    and "balances s u = Some b" and "b < n"
    and "g = CASINO \<or> g = SPORT"
  shows "make_bet t s = Inr s \<and> (startswith t ''bet'' \<longrightarrow> process_line s t = Inr s)"
proof -
  from assms have "make_bet t s = Inr s"
    by (auto simp add: make_bet_def resolve_bet_def SLOT_def CASINO_def SPORT_def)
  then show ?thesis
    by (simp add: process_line_bet)
qed

theorem uncoverable_non_slot_bet_changes_nothing_witness:
  "startswith ''bet u1 CASINO 1000000'' ''bet''
   \<and> make_bet ''bet u1 CASINO 1000000'' funded_state = Inr funded_state
   \<and> process_line funded_state ''bet u1 CASINO 1000000'' = Inr funded_state"
proof -
  have t: "split ''bet u1 CASINO 1000000'' = [''bet'', ''u1'', ''CASINO'', ''1000000'']"
    by code_simp
  have n: "py_int ''1000000'' = Some 1000000"
    by (simp add: int_defs)
  have b: "balances funded_state ''u1'' = Some 100"
    by (simp add: funded_state_def)
  have g: "''CASINO'' = CASINO \<or> ''CASINO'' = SPORT"
    by (simp add: CASINO_def)
  have p: "startswith ''bet u1 CASINO 1000000'' ''bet''"
    by code_simp
  from uncoverable_non_slot_bet_changes_nothing [OF t n _ b _ g] p show ?thesis
    by simp
qed

section \<open>Errors of the handlers come before any write\<close>

text \<open>
  The evaluator raises none of the handlers' own errors; what it raises comes after the
  handler has already written (and, for a first assignment, after the queue and the
  campaign map were changed).
\<close>

lemma pay_prize_error:
  "pay_prize u c i s = Inl (e, s') \<Longrightarrow> e \<notin> handler_errors"
  by (auto simp add: pay_prize_def handler_errors_def split: option.splits if_splits)

lemma tier_payout_error:
  "tier_payout u c i m s = Inl (e, s') \<Longrightarrow> e \<notin> handler_errors"
  by (auto simp add: tier_payout_def split: sum.splits dest: pay_prize_error)

lemma tier2_branch_error:
  "tier2_branch u c d w s = Inl (e, s') \<Longrightarrow> e \<notin> handler_errors"
  by (auto simp add: tier2_branch_def handler_errors_def split: if_splits dest: tier_payout_error)

lemma check_campaign_status_error:
  "check_campaign_status u s = Inl (e, s') \<Longrightarrow> e \<notin> handler_errors"
  unfolding check_campaign_status_def
  by (auto simp add: Let_def handler_errors_def split: option.splits if_splits list.splits
           dest: pay_prize_error tier_payout_error tier2_branch_error)

lemma make_registration_error:
  "make_registration t s = Inl (e, s') \<Longrightarrow> s' = s"
  by (auto simp add: make_registration_def Let_def split: if_splits)

lemma add_scenario_error:
  "add_scenario t s = Inl (e, s') \<Longrightarrow> s' = s"
  by (auto simp add: add_scenario_def Let_def split: if_splits)

lemma get_balance_error:
  "get_balance t s = Inl (e, s') \<Longrightarrow> s' = s"
  by (auto simp add: get_balance_def Let_def split: if_splits option.splits)

lemma make_deposit_error:
  "make_deposit t s = Inl (e, s') \<Longrightarrow> e \<in> handler_errors \<Longrightarrow> s' = s"
  by (auto simp add: make_deposit_def Let_def split: if_splits option.splits
           dest: check_campaign_status_error)

lemma make_bet_error:
  "make_bet t s = Inl (e, s') \<Longrightarrow> e \<in> handler_errors \<Longrightarrow> s' = s"
  by (auto simp add: make_bet_def Let_def split: if_splits option.splits
           dest: check_campaign_status_error)

text \<open>
  C10. When a handler (or the dispatch of a line) stops with one of the handlers' own
  errors (wrong token count, amount not an integer literal, amount not positive,
  user already registered, user not registered, invalid game type), the state at the raise
  is the state the handler was given: nothing was written before the raise.
\<close>

theorem handler_error_before_mutation:
  "(make_registration t s = Inl (e, s') \<and> e \<in> handler_errors \<longrightarrow> s' = s)
   \<and> (add_scenario t s = Inl (e, s') \<and> e \<in> handler_errors \<longrightarrow> s' = s)
   \<and> (make_deposit t s = Inl (e, s') \<and> e \<in> handler_errors \<longrightarrow> s' = s)
   \<and> (make_bet t s = Inl (e, s') \<and> e \<in> handler_errors \<longrightarrow> s' = s)
   \<and> (get_balance t s = Inl (e, s') \<and> e \<in> handler_errors \<longrightarrow> s' = s)
   \<and> (process_line s t = Inl (e, s') \<and> e \<in> handler_errors \<longrightarrow> s' = s)"
  using make_registration_error add_scenario_error make_deposit_error make_bet_error get_balance_error
  by (auto simp add: process_line_def split: if_splits)

theorem handler_error_before_mutation_witness:
  "make_registration ''register'' funded_state = Inl (InvalidParameterCount, funded_state)
   \<and> add_scenario ''addscenario 10 20'' funded_state = Inl (InvalidParameterCount, funded_state)
   \<and> make_deposit ''deposit u1 -5'' funded_state = Inl (NotPositive, funded_state)
   \<and> make_bet ''bet u1 POKER 5'' funded_state = Inl (InvalidGameType, funded_state)
   \<and> get_balance ''balance u2'' funded_state = Inl (NotRegistered, funded_state)
   \<and> process_line funded_state ''register u1'' = Inl (UserExists, funded_state)
   \<and> process_line funded_state ''deposit u1 1x'' = Inl (InvalidLiteral, funded_state)"
proof -
  have 1: "\<exists>s'. make_registration ''register'' funded_state = Inl (InvalidParameterCount, s')"
    by (simp add: make_registration_def tok_defs)
  have 2: "\<exists>s'. add_scenario ''addscenario 10 20'' funded_state = Inl (InvalidParameterCount, s')"
    by (simp add: add_scenario_def tok_defs)
  have 3: "\<exists>s'. make_deposit ''deposit u1 -5'' funded_state = Inl (NotPositive, s')"
    by (simp add: make_deposit_def tok_defs int_defs)
  have 4: "\<exists>s'. make_bet ''bet u1 POKER 5'' funded_state = Inl (InvalidGameType, s')"
    by (simp add: make_bet_def tok_defs int_defs funded_state_def SLOT_def CASINO_def SPORT_def)
  have 5: "\<exists>s'. get_balance ''balance u2'' funded_state = Inl (NotRegistered, s')"
    by (simp add: get_balance_def tok_defs funded_state_def initial_def)
  have 6: "\<exists>s'. process_line funded_state ''register u1'' = Inl (UserExists, s')"
    by (simp add: process_line_def startswith_def make_registration_def tok_defs funded_state_def)
  have 7: "\<exists>s'. process_line funded_state ''deposit u1 1x'' = Inl (InvalidLiteral, s')"
    by (simp add: process_line_def startswith_def make_deposit_def tok_defs int_defs)
  have h: "InvalidParameterCount \<in> handler_errors" "NotPositive \<in> handler_errors"
    "InvalidGameType \<in> handler_errors" "NotRegistered \<in> handler_errors"
    "UserExists \<in> handler_errors" "InvalidLiteral \<in> handler_errors"
    by (simp_all add: handler_errors_def)
  from 1 2 3 4 5 6 7 h show ?thesis
    using handler_error_before_mutation by blast
qed

section \<open>Lines that match no command word\<close>

text \<open>
  The dispatch tests the whole line with \<open>startswith\<close>. A line that starts with a command
  word has a first token that starts with it, because the command words hold no whitespace.
\<close>

lemma split_from_nonspace:
  "\<forall>c\<in>set xs. \<not> is_space c \<Longrightarrow> split_from cur (xs @ ys) = split_from (cur @ xs) ys"
  by (induction xs arbitrary: cur) simp_all

lemma split_from_starts:
  "cur \<noteq> [] \<Longrightarrow> \<exists>x xs. split_from cur ys = x # xs \<and> take (length cur) x = cur"
proof (induction ys arbitrary: cur)
  case Nil
  then show ?case by simp
next
  case (Cons c cs)
  show ?case
  proof (cases "is_space c")
    case True
    with Cons.prems show ?thesis by simp
  next
    case False
    from Cons.IH [of "cur @ [c]"] obtain x xs
      where x: "split_from (cur @ [c]) cs = x # xs" "take (length (cur @ [c])) x = cur @ [c]"
      by auto
    from x(2) have "take (length cur) (take (Suc (length cur)) x) = take (length cur) (cur @ [c])"
      by simp
    then have "take (length cur) x = cur"
      by (simp add: min_def)
    with x(1) False show ?thesis by simp
  qed
qed

lemma startswith_first_token:
  assumes "startswith t kw" and "kw \<noteq> []" and "\<forall>c\<in>set kw. \<not> is_space c"
  shows "split t \<noteq> [] \<and> startswith (hd (split t)) kw"
proof -
  from assms(1) have t: "t = kw @ drop (length kw) t"
    by (metis append_take_drop_id startswith_def)
  have "split t = split_from kw (drop (length kw) t)"
    using split_from_nonspace [OF assms(3), of "[]" "drop (length kw) t"] t
    by (simp add: split_def)
  with split_from_starts [OF assms(2), of "drop (length kw) t"] show ?thesis
    by (auto simp add: startswith_def)
qed

lemma keyword_plain: "kw \<in> set command_keywords \<Longrightarrow> kw \<noteq> [] \<and> (\<forall>c\<in>set kw. \<not> is_space c)"
  by (auto simp add: command_keywords_def is_space_def whitespace_def)

text \<open>
  C3, as stated, fails. The first token of \<open>betx\<close> is none of the five command words,
  yet the line is handed to the bet handler and raises; the first token of
  \<open>registerme u1\<close> is none of them either, yet the line registers \<open>u1\<close>.
\<close>

theorem near_keyword_lines_are_dispatched:
  "hd (split ''betx'') \<notin> set command_keywords
   \<and> process_line initial ''betx'' = Inl (InvalidParameterCount, initial)
   \<and> hd (split ''registerme u1'') \<notin> set command_keywords
   \<and> balances initial ''u1'' = None
   \<and> balances (state_of (process_line initial ''registerme u1'')) ''u1'' = Some 0"
  by (simp add: command_keywords_def tok_defs process_line_def startswith_def make_bet_def
                make_registration_def initial_def state_of_def)

text \<open>
  C3, amended. A line that has no token, or whose first token does not begin with any of the
  five command words, is ignored: the state is returned unchanged (so nothing is appended
  to the outputs) and no error is raised.
\<close>

theorem line_without_keyword_prefix_ignored:
  assumes "split t = [] \<or> (\<forall>kw\<in>set command_keywords. \<not> startswith (hd (split t)) kw)"
  shows "process_line s t = Inr s"
proof -
  have "\<not> startswith t kw" if "kw \<in> set command_keywords" for kw
    using assms that startswith_first_token [of t kw] keyword_plain [of kw] by blast
  then show ?thesis
    by (simp add: process_line_def command_keywords_def)
qed

theorem line_without_keyword_prefix_ignored_witness:
  "process_line funded_state ''withdraw u1 5'' = Inr funded_state
   \<and> process_line funded_state '''' = Inr funded_state"
proof -
  have 1: "split ''withdraw u1 5'' = [] \<or>
           (\<forall>kw\<in>set command_keywords. \<not> startswith (hd (split ''withdraw u1 5'')) kw)"
    by (simp add: tok_defs command_keywords_def startswith_def)
  have 2: "split '''' = [] \<or> (\<forall>kw\<in>set command_keywords. \<not> startswith (hd (split '''')) kw)"
    by (simp add: tok_defs)
  from line_without_keyword_prefix_ignored [OF 1] line_without_keyword_prefix_ignored [OF 2]
  show ?thesis by simp
qed

section \<open>The alternating outcome flag\<close>

text \<open>The evaluator and every handler but the bet handler leave the flag as it is.\<close>

lemma pay_prize_win: "win (state_of (pay_prize u c i s)) = win s"
  by (simp add: pay_prize_def state_of_def split: option.splits)

lemma tier_payout_win: "win (state_of (tier_payout u c i m s)) = win s"
  using pay_prize_win [of u c i s]
  by (auto simp add: tier_payout_def store_campaign_def state_of_def Let_def split: sum.splits)

lemma tier2_branch_win: "win (state_of (tier2_branch u c d w s)) = win s"
  using tier_payout_win [of u c 1 "''2''" s]
  by (auto simp add: tier2_branch_def) (simp_all add: state_of_def)

lemma check_campaign_status_win: "win (state_of (check_campaign_status u s)) = win s"
proof (cases "deposits s u")
  case None
  then show ?thesis by (simp add: check_campaign_status_def state_of_def)
next
  case d: (Some d)
  show ?thesis
  proof (cases "slot_bets s u")
    case None
    with d show ?thesis by (simp add: check_campaign_status_def state_of_def)
  next
    case w: (Some w)
    show ?thesis
    proof (cases "user_campaigns s u")
      case None
      with d w show ?thesis
        using pay_prize_win [of u _ 0]
        by (auto simp add: check_campaign_status_def Let_def split: list.splits)
           (simp_all add: state_of_def)
    next
      case (Some c)
      with d w show ?thesis
        using tier_payout_win [of u c 2 "''3''" s] tier2_branch_win [of u c d w s]
        by (auto simp add: check_campaign_status_def) (simp_all add: state_of_def)
    qed
  qed
qed

lemma make_registration_win: "win (state_of (make_registration t s)) = win s"
  by (simp add: make_registration_def state_of_def Let_def)

lemma add_scenario_win: "win (state_of (add_scenario t s)) = win s"
  by (simp add: add_scenario_def state_of_def Let_def)

lemma get_balance_win: "win (state_of (get_balance t s)) = win s"
  by (simp add: get_balance_def state_of_def Let_def split: option.splits)

lemma make_deposit_win: "win (state_of (make_deposit t s)) = win s"
  by (simp add: make_deposit_def Let_def check_campaign_status_win split: option.splits)
     (simp add: state_of_def)

lemma make_bet_win:
  assumes "split t = [k, u, g, a]" and "py_int a = Some n" and "0 < n"
    and "balances s u = Some b" and "g \<in> {SLOT, CASINO, SPORT}"
  shows "win (state_of (make_bet t s)) = (if n \<le> b then \<not> win s else win s)"
proof (cases "g = SLOT")
  case True
  with assms show ?thesis
    by (simp add: make_bet_def Let_def check_campaign_status_win resolve_bet_def)
next
  case False
  with assms show ?thesis
    by (auto simp add: make_bet_def Let_def resolve_bet_def state_of_def)
qed

text \<open>
  C6. The flag is the one field \<open>win\<close> of the state and is true (win) initially. A bet
  of a registered user with a valid game type and a positive amount leaves the flag negated
  exactly when the amount is at most the user's balance on entry, and as it was otherwise
  (whether or not the evaluator raises afterwards). A line that is not dispatched to the bet
  handler never changes the flag.
\<close>

theorem outcome_flag_toggles_iff_coverable:
  "win initial
   \<and> (\<forall>(s::casino_system) t k u g a n b.
        split t = [k, u, g, a] \<and> py_int a = Some n \<and> 0 < n \<and> balances s u = Some b
          \<and> g \<in> {SLOT, CASINO, SPORT}
        \<longrightarrow> win (state_of (make_bet t s)) = (if n \<le> b then \<not> win s else win s))
   \<and> (\<forall>(s::casino_system) t. \<not> startswith t ''bet'' \<longrightarrow> win (state_of (process_line s t)) = win s)"
proof (intro conjI allI impI)
  show "win initial" by (simp add: initial_def)
next
  fix s :: casino_system and t k u g a n b
  assume "split t = [k, u, g, a] \<and> py_int a = Some n \<and> 0 < n \<and> balances s u = Some b
          \<and> g \<in> {SLOT, CASINO, SPORT}"
  then show "win (state_of (make_bet t s)) = (if n \<le> b then \<not> win s else win s)"
    using make_bet_win [of t k u g a n s b] by blast
next
  fix s :: casino_system and t
  assume "\<not> startswith t ''bet''"
  then show "win (state_of (process_line s t)) = win s"
    by (simp add: process_line_def make_registration_win add_scenario_win make_deposit_win
                  get_balance_win)
       (simp add: state_of_def)
qed

theorem outcome_flag_toggles_iff_coverable_witness:
  "win (state_of (make_bet ''bet u1 SPORT 40'' funded_state)) = (\<not> win funded_state)
   \<and> win (state_of (make_bet ''bet u1 SLOT 400'' funded_state)) = win funded_state
   \<and> win (state_of (process_line funded_state ''deposit u1 5'')) = win funded_state"
proof -
  note T = outcome_flag_toggles_iff_coverable
  have b: "balances funded_state ''u1'' = Some 100"
    by (simp add: funded_state_def)
  have g: "''SPORT'' \<in> {SLOT, CASINO, SPORT}" "''SLOT'' \<in> {SLOT, CASINO, SPORT}"
    by (simp_all add: SPORT_def SLOT_def)
  have t1: "split ''bet u1 SPORT 40'' = [''bet'', ''u1'', ''SPORT'', ''40'']"
    by (simp add: tok_defs)
  have n1: "py_int ''40'' = Some 40"
    by (simp add: int_defs)
  have t2: "split ''bet u1 SLOT 400'' = [''bet'', ''u1'', ''SLOT'', ''400'']"
    by (simp add: tok_defs)
  have n2: "py_int ''400'' = Some 400"
    by (simp add: int_defs)
  have d: "\<not> startswith ''deposit u1 5'' ''bet''"
    by (simp add: startswith_def)
  have 1: "win (state_of (make_bet ''bet u1 SPORT 40'' funded_state))
           = (if (40::int) \<le> 100 then \<not> win funded_state else win funded_state)"
    using T [THEN conjunct2, THEN conjunct1, rule_format,
             of "''bet u1 SPORT 40''" "''bet''" "''u1''" "''SPORT''" "''40''" 40 funded_state 100]
          t1 n1 b g by simp
  have 2: "win (state_of (make_bet ''bet u1 SLOT 400'' funded_state))
           = (if (400::int) \<le> 100 then \<not> win funded_state else win funded_state)"
    using T [THEN conjunct2, THEN conjunct1, rule_format,
             of "''bet u1 SLOT 400''" "''bet''" "''u1''" "''SLOT''" "''400''" 400 funded_state 100]
          t2 n2 b g by simp
  have 3: "win (state_of (process_line funded_state ''deposit u1 5'')) = win funded_state"
    using T [THEN conjunct2, THEN conjunct2, rule_format, OF d] .
  from 1 2 3 show ?thesis by simp
qed

section \<open>The tier marker after a payout\<close>

text \<open>
  C1 does not hold of the code. In the state reached by \<open>register u1; addscenario 10 20 30;
  deposit u1 500; bet u1 SLOT 250\<close> (marker 1, deposits 500, SLOT wagers 250) one call of
  the evaluator pays prize2 = 20, but the campaign stored afterwards still ends in the
  marker 1, and a second call pays prize2 again. Over the whole run the three balance
  queries record 760, 781 and 802: each of the two later deposits of 1 is followed by a
  payout of 20.
\<close>

theorem tier1_marker_not_advanced:
  "process_lines initial (take 4 tier_run) = Inr tier1_state
   \<and> check_campaign_status ''u1'' tier1_state = Inr (tier1_state\<lparr>balances := [''u1'' \<mapsto> 780]\<rparr>)
   \<and> user_campaigns (tier1_state\<lparr>balances := [''u1'' \<mapsto> 780]\<rparr>) ''u1''
       = Some [''10'', ''20'', ''30'', ''1'']
   \<and> check_campaign_status ''u1'' (tier1_state\<lparr>balances := [''u1'' \<mapsto> 780]\<rparr>)
       = Inr (tier1_state\<lparr>balances := [''u1'' \<mapsto> 800]\<rparr>)
   \<and> map_sum fst outputs (process_lines initial tier_run) = Inr [''760'', ''781'', ''802'']"
proof (intro conjI)
  show "process_lines initial (take 4 tier_run) = Inr tier1_state"
    by (simp add: tier_run_def tier1_state_def initial_def process_line_def startswith_def
                  make_registration_def add_scenario_def make_deposit_def make_bet_def
                  resolve_bet_def get_or_zero_def SLOT_def CASINO_def SPORT_def
                  tok_defs int_defs eval_defs)
  show "check_campaign_status ''u1'' tier1_state = Inr (tier1_state\<lparr>balances := [''u1'' \<mapsto> 780]\<rparr>)"
    by (simp add: tier1_state_def initial_def eval_defs int_defs Let_def)
  show "user_campaigns (tier1_state\<lparr>balances := [''u1'' \<mapsto> 780]\<rparr>) ''u1''
       = Some [''10'', ''20'', ''30'', ''1'']"
    by (simp add: tier1_state_def)
  show "check_campaign_status ''u1'' (tier1_state\<lparr>balances := [''u1'' \<mapsto> 780]\<rparr>)
       = Inr (tier1_state\<lparr>balances := [''u1'' \<mapsto> 800]\<rparr>)"
    by (simp add: tier1_state_def initial_def eval_defs int_defs Let_def)
  show "map_sum fst outputs (process_lines initial tier_run) = Inr [''760'', ''781'', ''802'']"
    by code_simp
qed

text \<open>
  C2 does not hold of the code. In a state with marker 2, deposits 1000 and SLOT wagers 500
  one call of the evaluator pays prize3 = 30, but the campaign stored afterwards still ends
  in the marker 2, and a second call pays prize3 again.
\<close>

theorem tier2_marker_not_advanced:
  "check_campaign_status ''u1'' tier2_state = Inr (tier2_state\<lparr>balances := [''u1'' \<mapsto> 30]\<rparr>)
   \<and> user_campaigns (tier2_state\<lparr>balances := [''u1'' \<mapsto> 30]\<rparr>) ''u1''
       = Some [''10'', ''20'', ''30'', ''2'']
   \<and> check_campaign_status ''u1'' (tier2_state\<lparr>balances := [''u1'' \<mapsto> 30]\<rparr>)
       = Inr (tier2_state\<lparr>balances := [''u1'' \<mapsto> 60]\<rparr>)"
proof (intro conjI)
  show "check_campaign_status ''u1'' tier2_state = Inr (tier2_state\<lparr>balances := [''u1'' \<mapsto> 30]\<rparr>)"
    by (simp add: tier2_state_def initial_def eval_defs int_defs Let_def)
  show "user_campaigns (tier2_state\<lparr>balances := [''u1'' \<mapsto> 30]\<rparr>) ''u1''
       = Some [''10'', ''20'', ''30'', ''2'']"
    by (simp add: tier2_state_def)
  show "check_campaign_status ''u1'' (tier2_state\<lparr>balances := [''u1'' \<mapsto> 30]\<rparr>)
       = Inr (tier2_state\<lparr>balances := [''u1'' \<mapsto> 60]\<rparr>)"
    by (simp add: tier2_state_def initial_def eval_defs int_defs Let_def)
qed

section \<open>Scenarios leave the queue in load order\<close>

text \<open>
  The evaluator either leaves the queue and the campaigns alone or takes the scenario at the
  front of the queue and stores it, with the marker 1, for a user who had none. A line does
  one of these or appends one scenario at the back.
\<close>

lemma pay_prize_qc: "qc (state_of (pay_prize u c i s)) = qc s"
  by (simp add: pay_prize_def state_of_def qc_def split: option.splits)

lemma tier_payout_qc:
  "user_campaigns s u = Some c \<Longrightarrow> qc (state_of (tier_payout u c i m s)) = qc s"
  using pay_prize_qc [of u c i s]
  by (auto simp add: tier_payout_def store_campaign_def state_of_def qc_def Let_def
           split: sum.splits)

lemma tier2_branch_qc:
  "user_campaigns s u = Some c \<Longrightarrow> qc (state_of (tier2_branch u c d w s)) = qc s"
  using tier_payout_qc [of s u c 1 "''2''"]
  by (auto simp add: tier2_branch_def) (simp_all add: state_of_def)

lemma check_campaign_status_qc:
  "qc (state_of (check_campaign_status u s)) = qc s
   \<or> (\<exists>sc rest. unused_scenarios s = sc # rest \<and> user_campaigns s u = None
        \<and> qc (state_of (check_campaign_status u s))
            = (rest, (user_campaigns s)(u \<mapsto> sc @ [''1''])))"
proof (cases "deposits s u")
  case None
  then show ?thesis by (simp add: check_campaign_status_def state_of_def)
next
  case d: (Some d)
  show ?thesis
  proof (cases "slot_bets s u")
    case None
    with d show ?thesis by (simp add: check_campaign_status_def state_of_def)
  next
    case w: (Some w)
    show ?thesis
    proof (cases "user_campaigns s u")
      case None
      show ?thesis
      proof (cases "100 \<le> d \<and> 50 \<le> w")
        case False
        with d w None show ?thesis
          by (auto simp add: check_campaign_status_def state_of_def)
      next
        case True
        show ?thesis
        proof (cases "unused_scenarios s")
          case Nil
          with d w None True show ?thesis
            by (simp add: check_campaign_status_def state_of_def)
        next
          case (Cons sc rest)
          with d w None True show ?thesis
            using pay_prize_qc [of u "sc @ [''1'']" 0
                "s\<lparr>unused_scenarios := rest,
                   user_campaigns := (user_campaigns s)(u \<mapsto> sc @ [''1''])\<rparr>"]
            by (simp add: check_campaign_status_def Let_def qc_def)
        qed
      qed
    next
      case (Some c)
      with d w show ?thesis
        using tier_payout_qc [of s u c 2 "''3''"] tier2_branch_qc [of s u c d w]
        by (auto simp add: check_campaign_status_def) (simp_all add: state_of_def)
    qed
  qed
qed

lemma check_campaign_status_qc_from:
  assumes "qc s1 = qc s"
  shows "qc (state_of (check_campaign_status u s1)) = qc s
   \<or> (\<exists>sc rest. unused_scenarios s = sc # rest \<and> user_campaigns s u = None
        \<and> qc (state_of (check_campaign_status u s1))
            = (rest, (user_campaigns s)(u \<mapsto> sc @ [''1''])))"
  using check_campaign_status_qc [of u s1] assms by (simp add: qc_def)

lemma make_registration_qc: "qc (state_of (make_registration t s)) = qc s"
  by (simp add: make_registration_def state_of_def Let_def qc_def)

lemma get_balance_qc: "qc (state_of (get_balance t s)) = qc s"
  by (simp add: get_balance_def state_of_def Let_def qc_def split: option.splits)

lemma add_scenario_qc: "qc_step s (state_of (add_scenario t s))"
  by (simp add: add_scenario_def state_of_def Let_def qc_def qc_step_def)

lemma make_deposit_qc: "qc_step s (state_of (make_deposit t s))"
proof -
  have "qc_step s (state_of (check_campaign_status u s1))" if "qc s1 = qc s" for u s1
    using check_campaign_status_qc_from [OF that, of u] by (auto simp add: qc_step_def)
  moreover have "qc_step s s"
    by (simp add: qc_step_def)
  ultimately show ?thesis
    by (simp add: make_deposit_def Let_def qc_def state_of_def split: option.splits)
qed

lemma make_bet_qc: "qc_step s (state_of (make_bet t s))"
proof -
  have "qc_step s (state_of (check_campaign_status u s1))" if "qc s1 = qc s" for u s1
    using check_campaign_status_qc_from [OF that, of u] by (auto simp add: qc_step_def)
  moreover have "qc_step s s"
    by (simp add: qc_step_def)
  moreover have "qc_step s (resolve_bet u b n s)" for u b n
    by (simp add: qc_step_def resolve_bet_def qc_def)
  moreover have "qc (resolve_bet u b n s) = qc s" for u b n
    by (simp add: resolve_bet_def qc_def)
  ultimately show ?thesis
    by (simp add: make_bet_def Let_def qc_def state_of_def split: option.splits)
qed

lemma process_line_qc: "qc_step s (state_of (process_line s t))"
  using make_registration_qc [of t s] get_balance_qc [of t s]
  by (simp add: process_line_def add_scenario_qc make_deposit_qc make_bet_qc)
     (simp add: qc_step_def state_of_def)

lemma assigned_between_refl: "assigned_between a a [] [] []"
  by (auto simp add: assigned_between_def)

lemma assigned_between_step:
  assumes "qc_step s s'"
  shows "\<exists>us taken added. assigned_between s s' us taken added"
proof -
  from assms consider
      (same) "qc s' = qc s"
    | (load) sc where "qc s' = (unused_scenarios s @ [sc], user_campaigns s)"
    | (assign) u sc rest where "unused_scenarios s = sc # rest" "user_campaigns s u = None"
        "qc s' = (rest, (user_campaigns s)(u \<mapsto> sc @ [''1'']))"
    unfolding qc_step_def by blast
  then show ?thesis
  proof cases
    case same
    then have "assigned_between s s' [] [] []"
      by (auto simp add: assigned_between_def qc_def)
    then show ?thesis by blast
  next
    case load
    then have "assigned_between s s' [] [] [sc]"
      by (auto simp add: assigned_between_def qc_def)
    then show ?thesis by blast
  next
    case assign
    then have "assigned_between s s' [u] [sc] []"
      by (auto simp add: assigned_between_def qc_def)
    then show ?thesis by blast
  qed
qed

lemma assigned_between_trans:
  assumes ab: "assigned_between a b us1 tk1 ad1" and bc: "assigned_between b c us2 tk2 ad2"
  shows "assigned_between a c (us1 @ us2) (tk1 @ tk2) (ad1 @ ad2)"
proof -
  from ab have d1: "distinct us1"
    and s1: "set us1 = {u. user_campaigns a u = None \<and> user_campaigns b u \<noteq> None}"
    and m1: "map (user_campaigns b) us1 = map (\<lambda>sc. Some (sc @ [''1''])) tk1"
    and q1: "unused_scenarios a @ ad1 = tk1 @ unused_scenarios b"
    and k1: "\<And>u c. user_campaigns a u = Some c \<Longrightarrow> user_campaigns b u = Some c"
    by (simp_all add: assigned_between_def)
  from bc have d2: "distinct us2"
    and s2: "set us2 = {u. user_campaigns b u = None \<and> user_campaigns c u \<noteq> None}"
    and m2: "map (user_campaigns c) us2 = map (\<lambda>sc. Some (sc @ [''1''])) tk2"
    and q2: "unused_scenarios b @ ad2 = tk2 @ unused_scenarios c"
    and k2: "\<And>u x. user_campaigns b u = Some x \<Longrightarrow> user_campaigns c u = Some x"
    by (simp_all add: assigned_between_def)
  have dist: "distinct (us1 @ us2)"
    using d1 d2 s1 s2 by auto
  have sets: "set (us1 @ us2) = {u. user_campaigns a u = None \<and> user_campaigns c u \<noteq> None}"
  proof (rule set_eqI)
    fix u
    show "u \<in> set (us1 @ us2) \<longleftrightarrow> u \<in> {u. user_campaigns a u = None \<and> user_campaigns c u \<noteq> None}"
    proof (cases "user_campaigns b u")
      case None
      then have "user_campaigns a u = None"
        using k1 [of u] by (cases "user_campaigns a u") auto
      with None show ?thesis using s1 s2 by auto
    next
      case (Some x)
      then have "user_campaigns c u = Some x" by (rule k2)
      with Some show ?thesis using s1 s2 by auto
    qed
  qed
  have "map (user_campaigns c) us1 = map (user_campaigns b) us1"
  proof (rule map_cong [OF refl])
    fix u assume "u \<in> set us1"
    with s1 obtain x where "user_campaigns b u = Some x" by auto
    then show "user_campaigns c u = user_campaigns b u" using k2 by simp
  qed
  with m1 m2 have maps:
    "map (user_campaigns c) (us1 @ us2) = map (\<lambda>sc. Some (sc @ [''1''])) (tk1 @ tk2)"
    by simp
  have "unused_scenarios a @ ad1 @ ad2 = tk1 @ unused_scenarios b @ ad2"
    using q1 by (metis append_assoc)
  with q2 have queue: "unused_scenarios a @ ad1 @ ad2 = (tk1 @ tk2) @ unused_scenarios c"
    by simp
  have keep: "\<forall>u x. user_campaigns a u = Some x \<longrightarrow> user_campaigns c u = Some x"
    using k1 k2 by blast
  from dist sets maps queue keep show ?thesis
    unfolding assigned_between_def by simp
qed

lemma process_lines_assigned:
  "\<exists>us taken added. assigned_between s (state_of (process_lines s ts)) us taken added"
proof (induction ts arbitrary: s)
  case Nil
  show ?case using assigned_between_refl [of s] by (auto simp add: state_of_def)
next
  case (Cons t ts)
  from assigned_between_step [OF process_line_qc [of s t]] obtain us1 tk1 ad1
    where 1: "assigned_between s (state_of (process_line s t)) us1 tk1 ad1" by blast
  show ?case
  proof (cases "process_line s t")
    case (Inl e)
    then have "state_of (process_lines s (t # ts)) = state_of (process_line s t)"
      by (simp add: state_of_def)
    with 1 show ?thesis by auto
  next
    case (Inr s1)
    then have eq: "state_of (process_lines s (t # ts)) = state_of (process_lines s1 ts)"
      and s1: "state_of (process_line s t) = s1"
      by (simp_all add: state_of_def)
    from Cons.IH [of s1] obtain us2 tk2 ad2
      where "assigned_between s1 (state_of (process_lines s1 ts)) us2 tk2 ad2" by blast
    with 1 s1 eq have "assigned_between s (state_of (process_lines s (t # ts)))
                         (us1 @ us2) (tk1 @ tk2) (ad1 @ ad2)"
      using assigned_between_trans by metis
    then show ?thesis by blast
  qed
qed

lemma process_lines_append:
  "process_lines s (xs @ ys) =
     (case process_lines s xs of Inl e \<Rightarrow> Inl e | Inr s1 \<Rightarrow> process_lines s1 ys)"
  by (induction xs arbitrary: s) (auto split: sum.splits)

text \<open>
  C8. Between any two points \<open>i \<le> j\<close> of a run, from any starting state: the users who
  got a campaign in between are pairwise different and had none at \<open>i\<close>; taken in order,
  they hold the scenarios that stood at the front of the queue at \<open>i\<close> (continued by those
  loaded since), in that order, one position of the queue per user, and what is left of the
  queue at \<open>j\<close> is the rest; and whoever had a campaign at \<open>i\<close> has the very same
  campaign at \<open>j\<close>. With \<open>j = i + 1\<close> this is the effect of a single line; with \<open>i\<close> any
  point after a scenario was loaded, it fixes the order in which that scenario is handed out.
\<close>

theorem scenarios_assigned_fifo:
  assumes "i \<le> j"
  shows "\<exists>us taken added.
           assigned_between (state_after s ts i) (state_after s ts j) us taken added"
proof -
  have tk: "take j ts = take i ts @ drop i (take j ts)"
    using assms by (metis append_take_drop_id min.absorb2 take_take min.commute)
  show ?thesis
  proof (cases "process_lines s (take i ts)")
    case (Inl e)
    then have "process_lines s (take j ts) = Inl e"
      using process_lines_append [of s "take i ts" "drop i (take j ts)"] tk by simp
    with Inl have "state_after s ts j = state_after s ts i"
      by (simp add: state_after_def)
    then show ?thesis using assigned_between_refl by metis
  next
    case (Inr s1)
    then have "process_lines s (take j ts) = process_lines s1 (drop i (take j ts))"
      using process_lines_append [of s "take i ts" "drop i (take j ts)"] tk by simp
    with Inr have "state_after s ts i = s1"
      and "state_after s ts j = state_of (process_lines s1 (drop i (take j ts)))"
      by (simp_all add: state_after_def state_of_def)
    then show ?thesis using process_lines_assigned [of s1 "drop i (take j ts)"] by simp
  qed
qed

theorem scenarios_assigned_fifo_witness:
  "user_campaigns (state_after initial two_user_run 6) ''b'' = Some [''1'', ''2'', ''3'', ''1'']
   \<and> user_campaigns (state_after initial two_user_run 8) ''b'' = Some [''1'', ''2'', ''3'', ''1'']"
proof -
  have b6: "user_campaigns (state_after initial two_user_run 6) ''b''
            = Some [''1'', ''2'', ''3'', ''1'']"
    by code_simp
  have le: "(6::nat) \<le> 8" by simp
  from scenarios_assigned_fifo [OF le, of initial two_user_run] obtain us taken added
    where "assigned_between (state_after initial two_user_run 6)
             (state_after initial two_user_run 8) us taken added"
    by blast
  with b6 have "user_campaigns (state_after initial two_user_run 8) ''b''
                = Some [''1'', ''2'', ''3'', ''1'']"
    by (simp add: assigned_between_def)
  with b6 show ?thesis by simp
qed

text \<open>The two-user run: the first user to qualify gets the first scenario loaded.\<close>

lemma two_user_run_assignments:
  "map_sum fst (\<lambda>s. (user_campaigns s ''a'', user_campaigns s ''b'', unused_scenarios s))
     (process_lines initial (take 6 two_user_run))
   = Inr (None, Some [''1'', ''2'', ''3'', ''1''], [[''4'', ''5'', ''6'']])
   \<and> map_sum fst (\<lambda>s. (user_campaigns s ''a'', user_campaigns s ''b'', unused_scenarios s))
     (process_lines initial two_user_run)
   = Inr (Some [''4'', ''5'', ''6'', ''1''], Some [''1'', ''2'', ''3'', ''1''], [])"
proof (intro conjI)
  show "map_sum fst (\<lambda>s. (user_campaigns s ''a'', user_campaigns s ''b'', unused_scenarios s))
     (process_lines initial (take 6 two_user_run))
   = Inr (None, Some [''1'', ''2'', ''3'', ''1''], [[''4'', ''5'', ''6'']])"
    by code_simp
  show "map_sum fst (\<lambda>s. (user_campaigns s ''a'', user_campaigns s ''b'', unused_scenarios s))
     (process_lines initial two_user_run)
   = Inr (Some [''4'', ''5'', ''6'', ''1''], Some [''1'', ''2'', ''3'', ''1''], [])"
    by code_simp
qed

text \<open>
  In every run from the initial state each campaign keeps the marker 1 it was created with:
  no state with marker 2 or 3 is ever reached.
\<close>

lemma qc_step_marker_one:
  assumes "qc_step s s'" and "marker_one s"
  shows "marker_one s'"
  unfolding marker_one_def
proof (intro allI impI)
  fix u c
  assume c: "user_campaigns s' u = Some c"
  from assms(1) have "user_campaigns s' = user_campaigns s
      \<or> (\<exists>v sc. user_campaigns s' = (user_campaigns s)(v \<mapsto> sc @ [''1'']))"
    by (auto simp add: qc_step_def qc_def)
  then show "c \<noteq> [] \<and> last c = ''1''"
  proof
    assume "user_campaigns s' = user_campaigns s"
    with c assms(2) show ?thesis by (simp add: marker_one_def)
  next
    assume "\<exists>v sc. user_campaigns s' = (user_campaigns s)(v \<mapsto> sc @ [''1''])"
    then obtain v sc where "user_campaigns s' = (user_campaigns s)(v \<mapsto> sc @ [''1''])"
      by blast
    with c assms(2) show ?thesis
      by (cases "u = v") (auto simp add: marker_one_def)
  qed
qed

lemma process_lines_marker_one:
  "marker_one s \<Longrightarrow> marker_one (state_of (process_lines s ts))"
proof (induction ts arbitrary: s)
  case Nil
  then show ?case by (simp add: state_of_def)
next
  case (Cons t ts)
  then have 1: "marker_one (state_of (process_line s t))"
    using qc_step_marker_one [OF process_line_qc] by blast
  show ?case
  proof (cases "process_line s t")
    case (Inl e)
    with 1 show ?thesis by (simp add: state_of_def)
  next
    case (Inr s1)
    with 1 have "marker_one s1" by (simp add: state_of_def)
    with Cons.IH [of s1] Inr show ?thesis by simp
  qed
qed

lemma tier_marker_never_advances:
  "user_campaigns (state_of (process_lines initial ts)) u = Some c \<Longrightarrow> c \<noteq> [] \<and> last c = ''1''"
  using process_lines_marker_one [of initial ts]
  by (simp add: marker_one_def initial_def)

section \<open>Balances stay non-negative\<close>

lemma nonneg_prize_marker: "nonneg_prize ''1''"
  by (simp add: nonneg_prize_def int_defs)

lemma pay_prize_sound:
  assumes "sound s" and "list_all nonneg_prize c"
  shows "sound (state_of (pay_prize u c i s))"
proof (cases "balances s u")
  case None
  with assms show ?thesis by (simp add: pay_prize_def state_of_def)
next
  case (Some b)
  show ?thesis
  proof (cases "length c \<le> i")
    case True
    with Some assms show ?thesis by (simp add: pay_prize_def state_of_def)
  next
    case False
    with assms(2) have "nonneg_prize (c ! i)"
      by (simp add: list_all_length)
    then obtain p where p: "py_int (c ! i) = Some p" "0 \<le> p"
      by (auto simp add: nonneg_prize_def split: option.splits)
    from assms(1) Some have "0 \<le> b"
      by (simp add: sound_def balances_ok_def)
    with p Some False assms(1) show ?thesis
      by (simp add: pay_prize_def state_of_def sound_def balances_ok_def prizes_ok_def)
  qed
qed

lemma store_campaign_sound:
  "sound s \<Longrightarrow> list_all nonneg_prize c \<Longrightarrow> sound (store_campaign u c m s)"
  by (simp add: store_campaign_def Let_def sound_def balances_ok_def prizes_ok_def)

lemma tier_payout_sound:
  assumes "sound s" and "list_all nonneg_prize c"
  shows "sound (state_of (tier_payout u c i m s))"
proof (cases "pay_prize u c i s")
  case (Inl e)
  with pay_prize_sound [OF assms, of u i] show ?thesis
    by (simp add: tier_payout_def)
next
  case (Inr s1)
  with pay_prize_sound [OF assms, of u i] have "sound s1"
    by (simp add: state_of_def)
  with Inr assms(2) show ?thesis
    by (simp add: tier_payout_def state_of_def store_campaign_sound)
qed

lemma tier2_branch_sound:
  assumes "sound s" and "list_all nonneg_prize c"
  shows "sound (state_of (tier2_branch u c d w s))"
  using assms tier_payout_sound [OF assms, of u 1 "''2''"]
  by (auto simp add: tier2_branch_def) (simp_all add: state_of_def)

lemma check_campaign_status_sound:
  assumes "sound s"
  shows "sound (state_of (check_campaign_status u s))"
proof (cases "deposits s u")
  case None
  with assms show ?thesis by (simp add: check_campaign_status_def state_of_def)
next
  case d: (Some d)
  show ?thesis
  proof (cases "slot_bets s u")
    case None
    with d assms show ?thesis by (simp add: check_campaign_status_def state_of_def)
  next
    case w: (Some w)
    show ?thesis
    proof (cases "user_campaigns s u")
      case None
      show ?thesis
      proof (cases "100 \<le> d \<and> 50 \<le> w")
        case False
        with d w None assms show ?thesis
          by (auto simp add: check_campaign_status_def state_of_def)
      next
        case True
        show ?thesis
        proof (cases "unused_scenarios s")
          case Nil
          with d w None True assms show ?thesis
            by (simp add: check_campaign_status_def state_of_def)
        next
          case (Cons sc rest)
          with assms have sc: "list_all nonneg_prize (sc @ [''1''])"
            by (simp add: sound_def prizes_ok_def nonneg_prize_marker)
          with assms Cons
          have "sound (s\<lparr>unused_scenarios := rest,
                          user_campaigns := (user_campaigns s)(u \<mapsto> sc @ [''1''])\<rparr>)"
            by (simp add: sound_def balances_ok_def prizes_ok_def)
          from pay_prize_sound [OF this sc, of u 0] d w None True Cons show ?thesis
            by (simp add: check_campaign_status_def Let_def)
        qed
      qed
    next
      case (Some c)
      with assms have c: "list_all nonneg_prize c"
        by (simp add: sound_def prizes_ok_def)
      from d w Some assms show ?thesis
        using tier_payout_sound [OF assms c, of u 2 "''3''"] tier2_branch_sound [OF assms c, of u d w]
        by (auto simp add: check_campaign_status_def) (simp_all add: state_of_def)
    qed
  qed
qed

lemma make_registration_sound: "sound s \<Longrightarrow> sound (state_of (make_registration t s))"
  by (simp add: make_registration_def state_of_def Let_def sound_def balances_ok_def prizes_ok_def)

lemma get_balance_sound: "sound s \<Longrightarrow> sound (state_of (get_balance t s))"
  by (simp add: get_balance_def state_of_def Let_def sound_def balances_ok_def prizes_ok_def
           split: option.splits)

lemma add_scenario_sound:
  assumes "sound s" and "length (split t) = 4 \<longrightarrow> list_all nonneg_prize (tl (split t))"
  shows "sound (state_of (add_scenario t s))"
proof (cases "length (split t) = 4")
  case False
  with assms(1) show ?thesis by (simp add: add_scenario_def state_of_def)
next
  case True
  then obtain k p1 p2 p3 where "split t = [k, p1, p2, p3]"
    by (auto simp add: length_Suc_conv numeral_eq_Suc)
  with assms show ?thesis
    by (simp add: add_scenario_def state_of_def sound_def balances_ok_def prizes_ok_def)
qed

lemma make_deposit_sound:
  assumes "sound s"
  shows "sound (state_of (make_deposit t s))"
proof -
  have "sound (s\<lparr>balances := (balances s)(u \<mapsto> b + n), deposits := x\<rparr>)"
    if "balances s u = Some b" "0 < n" for u b n x
    using assms that by (auto simp add: sound_def balances_ok_def prizes_ok_def)
  then show ?thesis
    using assms
    by (auto simp add: make_deposit_def Let_def check_campaign_status_sound split: option.splits)
       (simp_all add: state_of_def)
qed

lemma resolve_bet_sound:
  assumes "sound s" and "balances s u = Some b" and "0 < n"
  shows "sound (resolve_bet u b n s)"
  using assms by (auto simp add: resolve_bet_def sound_def balances_ok_def prizes_ok_def)

lemma slot_bets_update_sound: "sound s \<Longrightarrow> sound (s\<lparr>slot_bets := x\<rparr>)"
  by (simp add: sound_def balances_ok_def prizes_ok_def)

lemma make_bet_sound:
  assumes "sound s"
  shows "sound (state_of (make_bet t s))"
  using assms
  by (auto simp add: make_bet_def Let_def check_campaign_status_sound resolve_bet_sound
                     slot_bets_update_sound split: option.splits)
     (simp_all add: state_of_def resolve_bet_sound)

lemma process_line_sound:
  assumes "sound s" and "scenario_line_ok t"
  shows "sound (state_of (process_line s t))"
  using assms
  by (simp add: process_line_def scenario_line_ok_def make_registration_sound add_scenario_sound
                make_deposit_sound make_bet_sound get_balance_sound)
     (simp add: state_of_def)

lemma process_lines_sound:
  "sound s \<Longrightarrow> \<forall>t\<in>set ts. scenario_line_ok t \<Longrightarrow> sound (state_of (process_lines s ts))"
proof (induction ts arbitrary: s)
  case Nil
  then show ?case by (simp add: state_of_def)
next
  case (Cons t ts)
  then have 1: "sound (state_of (process_line s t))"
    by (simp add: process_line_sound)
  show ?case
  proof (cases "process_line s t")
    case (Inl e)
    with 1 show ?thesis by (simp add: state_of_def)
  next
    case (Inr s1)
    with 1 have "sound s1" by (simp add: state_of_def)
    with Cons.IH [of s1] Cons.prems(2) Inr show ?thesis by simp
  qed
qed

lemma sound_initial: "sound initial"
  by (simp add: sound_def balances_ok_def prizes_ok_def initial_def)

text \<open>
  C9. In a run from the initial state in which every scenario loaded (every four-token line
  dispatched to the scenario loader) has prize tokens that read as non-negative integers,
  every balance is at least 0 after every number \<open>k\<close> of lines processed, also in the
  state left behind by a line that raised.
\<close>

theorem balances_never_negative:
  assumes "\<forall>t\<in>set ts. scenario_line_ok t"
  shows "\<forall>k u b. balances (state_of (process_lines initial (take k ts))) u = Some b \<longrightarrow> 0 \<le> b"
proof (intro allI impI)
  fix k u b
  assume b: "balances (state_of (process_lines initial (take k ts))) u = Some b"
  from assms have "\<forall>t\<in>set (take k ts). scenario_line_ok t"
    by (meson in_set_takeD)
  with sound_initial have "sound (state_of (process_lines initial (take k ts)))"
    by (rule process_lines_sound)
  with b show "0 \<le> b"
    by (simp add: sound_def balances_ok_def)
qed

theorem balances_never_negative_witness:
  "list_all scenario_line_ok loss_run
   \<and> balances (state_of (process_lines initial (take 5 loss_run))) ''u1'' = Some 0
   \<and> 0 \<le> the (balances (state_of (process_lines initial (take 5 loss_run))) ''u1'')"
proof -
  have h: "\<forall>t\<in>set loss_run. scenario_line_ok t"
    by (simp add: loss_run_def scenario_line_ok_def startswith_def tok_defs nonneg_prize_def
                  int_defs)
  have b: "balances (state_of (process_lines initial (take 5 loss_run))) ''u1'' = Some 0"
    by code_simp
  from balances_never_negative [OF h] b
  have "0 \<le> the (balances (state_of (process_lines initial (take 5 loss_run))) ''u1'')"
    by (metis option.sel)
  with h b show ?thesis by (simp add: list_all_iff)
qed

end
